theory Spec2Isabelle
  imports Main
begin

section \<open>Python values, exceptions and the module's tables\<close>

text \<open>
  The module \<^verbatim>\<open>seesus.py\<close> works on four module-level tables that it imports:
  \<^verbatim>\<open>SDG_keys\<close> (a list of dicts with the keys \<^verbatim>\<open>SDG_id\<close>, \<^verbatim>\<open>SDG_keywords\<close> and
  \<^verbatim>\<open>match_type\<close>), \<^verbatim>\<open>see_keys\<close> (rows \<^verbatim>\<open>sdg_id, soc, env, econ\<close>), and
  \<^verbatim>\<open>goal_desc\<close>, \<^verbatim>\<open>tar_desc\<close> (rows \<^verbatim>\<open>id, desc\<close>). The tables themselves are data
  files that are not part of the code under study, so every function below takes the
  table it reads as an argument. \<^verbatim>\<open>SDG_keys\<close> is the only table the code writes to
  (\<^verbatim>\<open>edit_syntax\<close>); the functions that can raise or write return the table with
  their result.
\<close>

text \<open>The argument of \<^verbatim>\<open>id_sus\<close> is checked with \<^verbatim>\<open>isinstance(text, str)\<close>, so it is
  modelled as an arbitrary Python value.\<close>

datatype pyval =
    PyNone
  | PyBool bool
  | PyInt int
  | PyStr string
  | PyList "pyval list"

fun isinstance_str :: "pyval \<Rightarrow> bool" where
  "isinstance_str (PyStr s) = True"
| "isinstance_str v = False"

text \<open>
  Python exceptions. All three \<^verbatim>\<open>raise\<close> statements of the source raise
  \<^verbatim>\<open>ValueError\<close>; the message is kept as data (the two messages about identifiers
  print the list of known ids). \<open>TypeError\<close> is the class the specification names for
  a non-string argument of \<^verbatim>\<open>id_sus\<close>; no \<^verbatim>\<open>raise\<close> statement of the source uses it.
  \<open>Regex_error\<close> stands for an exception raised inside \<^verbatim>\<open>re.search\<close> (a pattern that
  does not compile).
\<close>

datatype message =
    Input_must_be_a_string
  | Invalid_input_id string "string list"
  | Invalid_input_match_type string

datatype error =
    ValueError message
  | TypeError message
  | Regex_error string

definition raises_TypeError :: "error + 'a \<Rightarrow> bool" where
  "raises_TypeError r = (case r of Inl (TypeError m) \<Rightarrow> True | _ \<Rightarrow> False)"

text \<open>One entry of \<^verbatim>\<open>SDG_keys\<close>: a dict with three string values.\<close>

record rule =
  SDG_id :: string
  SDG_keywords :: string
  match_type :: string

type_synonym catalog = "rule list"

text \<open>
  Two library calls are parameters of the model.

  \<^item> \<open>search pattern text\<close> is \<^verbatim>\<open>re.search(pattern, text, re.IGNORECASE)\<close> read as a
    truth value: \<open>Inr True\<close> for a match object, \<open>Inr False\<close> for \<^verbatim>\<open>None\<close>, \<open>Inl e\<close>
    when the call raises.
  \<^item> \<open>list_set xs\<close> is \<^verbatim>\<open>list(set(xs))\<close>. Python fixes the members of the result and
    that none is repeated, not their order; \<open>is_list_set\<close> says exactly that.
\<close>

type_synonym search = "string \<Rightarrow> string \<Rightarrow> error + bool"

type_synonym list_set = "string list \<Rightarrow> string list"

definition is_list_set :: "list_set \<Rightarrow> bool" where
  "is_list_set list_set = (\<forall>xs. set (list_set xs) = set xs \<and> distinct (list_set xs))"

section \<open>\<^verbatim>\<open>id_sus\<close>\<close>

text \<open>\<^verbatim>\<open>sdg_id.split("_")[0]\<close>: the part of the string before its first underscore, the
  whole string when it has none.\<close>

definition split_first :: "string \<Rightarrow> string" where
  "split_first sdg_id = takeWhile (\<lambda>c. c \<noteq> CHR ''_'') sdg_id"

text \<open>The \<^verbatim>\<open>for item in SDG_keys\<close> loop, with the three lists it appends to. An
  exception of \<^verbatim>\<open>re.search\<close> leaves the loop.\<close>

fun id_sus_loop ::
  "search \<Rightarrow> catalog \<Rightarrow> string \<Rightarrow> string list \<times> string list \<times> string list
    \<Rightarrow> error + (string list \<times> string list \<times> string list)" where
  "id_sus_loop search [] text (sdgs, targets, matches) = Inr (sdgs, targets, matches)"
| "id_sus_loop search (item # rest) text (sdgs, targets, matches) =
     (case search (SDG_keywords item) text of
        Inl e \<Rightarrow> Inl e
      | Inr found \<Rightarrow>
          if found
          then id_sus_loop search rest text
                 (sdgs @ [split_first (SDG_id item)],
                  targets @ [SDG_id item],
                  matches @ [match_type item])
          else id_sus_loop search rest text (sdgs, targets, matches))"

definition id_sus ::
  "list_set \<Rightarrow> search \<Rightarrow> catalog \<Rightarrow> pyval
    \<Rightarrow> error + (string list \<times> string list \<times> string list)" where
  "id_sus list_set search SDG_keys text =
     (case text of
        PyStr s \<Rightarrow>
          (case id_sus_loop search SDG_keys s ([], [], []) of
             Inl e \<Rightarrow> Inl e
           | Inr (sdgs, targets, matches) \<Rightarrow>
               Inr (list_set sdgs, list_set targets, list_set matches))
      | _ \<Rightarrow> Inl (ValueError Input_must_be_a_string))"

section \<open>\<^verbatim>\<open>cat_sus\<close>\<close>

text \<open>The dict \<^verbatim>\<open>see\<close> has three fixed keys; it holds integers while the loops run and
  truth values in the end.\<close>

record 'a see =
  social_sustainability :: 'a
  environmental_sustainability :: 'a
  economic_sustainability :: 'a

text \<open>A row of \<^verbatim>\<open>see_keys\<close> as \<^verbatim>\<open>sdg_id, soc, env, econ = item[:4]\<close> reads it; the
  three flags are given as the integers \<^verbatim>\<open>int(soc)\<close>, \<^verbatim>\<open>int(env)\<close>, \<^verbatim>\<open>int(econ)\<close>.\<close>

type_synonym see_row = "string \<times> int \<times> int \<times> int"

text \<open>\<^verbatim>\<open>for i in range(len(target))\<close> for one row.\<close>

fun cat_sus_inner :: "see_row \<Rightarrow> string list \<Rightarrow> int see \<Rightarrow> int see" where
  "cat_sus_inner item [] see = see"
| "cat_sus_inner (sdg_id, soc, env, econ) (t # target) see =
     cat_sus_inner (sdg_id, soc, env, econ) target
       (if t = sdg_id
        then see\<lparr>social_sustainability := social_sustainability see + soc,
                 environmental_sustainability := environmental_sustainability see + env,
                 economic_sustainability := economic_sustainability see + econ\<rparr>
        else see)"

text \<open>\<^verbatim>\<open>for item in see_keys\<close>.\<close>

fun cat_sus_outer :: "see_row list \<Rightarrow> string list \<Rightarrow> int see \<Rightarrow> int see" where
  "cat_sus_outer [] target see = see"
| "cat_sus_outer (item # rest) target see =
     cat_sus_outer rest target (cat_sus_inner item target see)"

definition cat_sus :: "see_row list \<Rightarrow> string list \<Rightarrow> bool see" where
  "cat_sus see_keys target =
     (let see = cat_sus_outer see_keys target
                  \<lparr>social_sustainability = 0,
                   environmental_sustainability = 0,
                   economic_sustainability = 0\<rparr>
      in \<lparr>social_sustainability = (social_sustainability see > 0),
          environmental_sustainability = (environmental_sustainability see > 0),
          economic_sustainability = (economic_sustainability see > 0)\<rparr>)"

text \<open>The invariant of the table: no flag is negative (each is a truth value written as 0 or 1).\<close>

definition flags_nonneg :: "see_row list \<Rightarrow> bool" where
  "flags_nonneg see_keys =
     list_all (\<lambda>(sdg_id, soc, env, econ).
        0 \<le> soc \<and> 0 \<le> env \<and> 0 \<le> econ) see_keys"

section \<open>\<^verbatim>\<open>label_sdg\<close> and \<^verbatim>\<open>label_target\<close>\<close>

text \<open>A row of a description table as \<^verbatim>\<open>goal_id, desc = item[:2]\<close> reads it.\<close>

type_synonym desc_row = "string \<times> string"

fun label_sdg_inner :: "string \<Rightarrow> string \<Rightarrow> string list \<Rightarrow> string list \<Rightarrow> string list" where
  "label_sdg_inner goal_id desc [] sdg_desc = sdg_desc"
| "label_sdg_inner goal_id desc (x # sdg_id) sdg_desc =
     label_sdg_inner goal_id desc sdg_id
       (if x = goal_id then sdg_desc @ [desc] else sdg_desc)"

fun label_sdg_outer :: "desc_row list \<Rightarrow> string list \<Rightarrow> string list \<Rightarrow> string list" where
  "label_sdg_outer [] sdg_id sdg_desc = sdg_desc"
| "label_sdg_outer ((goal_id, desc) # rest) sdg_id sdg_desc =
     label_sdg_outer rest sdg_id (label_sdg_inner goal_id desc sdg_id sdg_desc)"

definition label_sdg :: "desc_row list \<Rightarrow> string list \<Rightarrow> string list" where
  "label_sdg goal_desc sdg_id = label_sdg_outer goal_desc sdg_id []"

fun label_target_inner :: "string \<Rightarrow> string \<Rightarrow> string list \<Rightarrow> string list \<Rightarrow> string list" where
  "label_target_inner tar_id desc [] target_desc = target_desc"
| "label_target_inner tar_id desc (x # target_id) target_desc =
     label_target_inner tar_id desc target_id
       (if x = tar_id then target_desc @ [desc] else target_desc)"

fun label_target_outer :: "desc_row list \<Rightarrow> string list \<Rightarrow> string list \<Rightarrow> string list" where
  "label_target_outer [] target_id target_desc = target_desc"
| "label_target_outer ((tar_id, desc) # rest) target_id target_desc =
     label_target_outer rest target_id (label_target_inner tar_id desc target_id target_desc)"

definition label_target :: "desc_row list \<Rightarrow> string list \<Rightarrow> string list" where
  "label_target tar_desc target_id = label_target_outer tar_desc target_id []"

text \<open>
  The order the specification words for the labellers, to compare with the code: one
  group per input id, in input order, each group holding the descriptions of the table
  rows with that id.
\<close>

definition spec_label_input_order :: "desc_row list \<Rightarrow> string list \<Rightarrow> string list" where
  "spec_label_input_order table ids =
     concat (map (\<lambda>i. map snd (filter (\<lambda>row. fst row = i) table)) ids)"

section \<open>\<^verbatim>\<open>SeeSus.show_syntax\<close> and \<^verbatim>\<open>SeeSus.edit_syntax\<close>\<close>

text \<open>Both return \<^verbatim>\<open>None\<close> and print; the printed value is the result of the model, and
  the catalog after the call comes with it.\<close>

definition show_syntax ::
  "list_set \<Rightarrow> catalog \<Rightarrow> string \<Rightarrow> (error + rule list) \<times> catalog" where
  "show_syntax list_set SDG_keys sdg_id =
     (let ids = list_set (map SDG_id SDG_keys)
      in if sdg_id \<notin> set ids
         then (Inl (ValueError (Invalid_input_id sdg_id ids)), SDG_keys)
         else (Inr (filter (\<lambda>d. SDG_id d = sdg_id) SDG_keys), SDG_keys))"

text \<open>\<^verbatim>\<open>for item in SDG_keys: if ...: item.update({"SDG_keywords": new_syntax})\<close>.\<close>

fun edit_syntax_loop :: "catalog \<Rightarrow> string \<Rightarrow> string \<Rightarrow> string \<Rightarrow> catalog" where
  "edit_syntax_loop [] sdg_id new_syntax mt = []"
| "edit_syntax_loop (item # rest) sdg_id new_syntax mt =
     (if SDG_id item = sdg_id \<and> match_type item = mt
      then item\<lparr>SDG_keywords := new_syntax\<rparr>
      else item) # edit_syntax_loop rest sdg_id new_syntax mt"

definition edit_syntax ::
  "list_set \<Rightarrow> catalog \<Rightarrow> string \<Rightarrow> string \<Rightarrow> string \<Rightarrow> (error + string) \<times> catalog" where
  "edit_syntax list_set SDG_keys sdg_id new_syntax mt =
     (let ids = list_set (map SDG_id SDG_keys)
      in if sdg_id \<notin> set ids
         then (Inl (ValueError (Invalid_input_id sdg_id ids)), SDG_keys)
         else if mt \<notin> set [''direct'', ''indirect'']
         then (Inl (ValueError (Invalid_input_match_type mt)), SDG_keys)
         else (Inr (''The '' @ mt @ '' match syntax of '' @ sdg_id @ '' has been updated.''),
               edit_syntax_loop SDG_keys sdg_id new_syntax mt))"

text \<open>The default \<^verbatim>\<open>match_type="indirect"\<close>.\<close>

definition edit_syntax_default ::
  "list_set \<Rightarrow> catalog \<Rightarrow> string \<Rightarrow> string \<Rightarrow> (error + string) \<times> catalog" where
  "edit_syntax_default list_set SDG_keys sdg_id new_syntax =
     edit_syntax list_set SDG_keys sdg_id new_syntax ''indirect''"

section \<open>The module's state, statement by statement\<close>

text \<open>
  To say what a call changes, the same code is read once more as a transformer of the
  state of the running module. \<^verbatim>\<open>SDG_keys\<close> is a list of references to dict objects;
  \<^verbatim>\<open>item.update(...)\<close> in \<^verbatim>\<open>edit_syntax\<close> writes to the object a reference points to. The
  state holds

  \<^item> \<open>heap\<close>: the dict objects, by address;
  \<^item> \<open>SDG_keys_refs\<close>: the module-level list \<^verbatim>\<open>SDG_keys\<close>, a list of addresses;
  \<^item> \<open>stdout\<close>: what \<^verbatim>\<open>print\<close> has written;
  \<^item> \<open>sdgs_var\<close>, \<open>targets_var\<close>, \<open>matches_var\<close>: the three list objects that
    \<^verbatim>\<open>id_sus\<close> creates (lines 21 to 23) and appends to. What they hold before a call is
    arbitrary.
\<close>

type_synonym addr = nat

datatype printed =
    Shown "rule list"
  | Edited string

record py_state =
  heap :: "addr \<Rightarrow> rule"
  SDG_keys_refs :: "addr list"
  stdout :: "printed list"
  sdgs_var :: "string list"
  targets_var :: "string list"
  matches_var :: "string list"

text \<open>The catalog as the functions of the sections above see it.\<close>

definition catalog_of :: "py_state \<Rightarrow> catalog" where
  "catalog_of \<sigma> = map (heap \<sigma>) (SDG_keys_refs \<sigma>)"

text \<open>Lines 24 to 31: the loop, with the exception of \<^verbatim>\<open>re.search\<close> if one is
  raised, and the state at that point.\<close>

fun id_sus_for :: "search \<Rightarrow> addr list \<Rightarrow> string \<Rightarrow> py_state \<Rightarrow> error option \<times> py_state" where
  "id_sus_for search [] text \<sigma> = (None, \<sigma>)"
| "id_sus_for search (item # rest) text \<sigma> =
     (let sdg_id = SDG_id (heap \<sigma> item);
          sdg_keywords = SDG_keywords (heap \<sigma> item);
          mt = match_type (heap \<sigma> item)
      in case search sdg_keywords text of
           Inl e \<Rightarrow> (Some e, \<sigma>)
         | Inr found \<Rightarrow>
             if found
             then id_sus_for search rest text
                    (\<sigma>\<lparr>sdgs_var := sdgs_var \<sigma> @ [split_first sdg_id],
                       targets_var := targets_var \<sigma> @ [sdg_id],
                       matches_var := matches_var \<sigma> @ [mt]\<rparr>)
             else id_sus_for search rest text \<sigma>)"

text \<open>Lines 19 to 35.\<close>

definition id_sus_st ::
  "list_set \<Rightarrow> search \<Rightarrow> pyval \<Rightarrow> py_state
    \<Rightarrow> (error + (string list \<times> string list \<times> string list)) \<times> py_state" where
  "id_sus_st list_set search text \<sigma> =
     (case text of
        PyStr s \<Rightarrow>
          (case id_sus_for search (SDG_keys_refs \<sigma>) s
                  (\<sigma>\<lparr>sdgs_var := [], targets_var := [], matches_var := []\<rparr>) of
             (Some e, \<sigma>') \<Rightarrow> (Inl e, \<sigma>')
           | (None, \<sigma>') \<Rightarrow>
               (let \<sigma>'' = \<sigma>'\<lparr>sdgs_var := list_set (sdgs_var \<sigma>'),
                               targets_var := list_set (targets_var \<sigma>'),
                               matches_var := list_set (matches_var \<sigma>')\<rparr>
                in (Inr (sdgs_var \<sigma>'', targets_var \<sigma>'', matches_var \<sigma>''), \<sigma>'')))
      | _ \<Rightarrow> (Inl (ValueError Input_must_be_a_string), \<sigma>))"

text \<open>Lines 104 to 109.\<close>

definition show_syntax_st ::
  "list_set \<Rightarrow> string \<Rightarrow> py_state \<Rightarrow> (error + unit) \<times> py_state" where
  "show_syntax_st list_set sdg_id \<sigma> =
     (let ids = list_set (map (\<lambda>item. SDG_id (heap \<sigma> item)) (SDG_keys_refs \<sigma>))
      in if sdg_id \<notin> set ids
         then (Inl (ValueError (Invalid_input_id sdg_id ids)), \<sigma>)
         else (let shown = filter (\<lambda>d. SDG_id d = sdg_id) (map (heap \<sigma>) (SDG_keys_refs \<sigma>))
               in (Inr (), \<sigma>\<lparr>stdout := stdout \<sigma> @ [Shown shown]\<rparr>)))"

text \<open>Lines 134 to 136: the update is a write to the dict object at the address
  \<open>item\<close>.\<close>

fun edit_syntax_for :: "addr list \<Rightarrow> string \<Rightarrow> string \<Rightarrow> string \<Rightarrow> py_state \<Rightarrow> py_state" where
  "edit_syntax_for [] sdg_id new_syntax mt \<sigma> = \<sigma>"
| "edit_syntax_for (item # rest) sdg_id new_syntax mt \<sigma> =
     edit_syntax_for rest sdg_id new_syntax mt
       (if SDG_id (heap \<sigma> item) = sdg_id \<and> match_type (heap \<sigma> item) = mt
        then \<sigma>\<lparr>heap := (heap \<sigma>)(item := (heap \<sigma> item)\<lparr>SDG_keywords := new_syntax\<rparr>)\<rparr>
        else \<sigma>)"

text \<open>Lines 129 to 138.\<close>

definition edit_syntax_st ::
  "list_set \<Rightarrow> string \<Rightarrow> string \<Rightarrow> string \<Rightarrow> py_state \<Rightarrow> (error + unit) \<times> py_state" where
  "edit_syntax_st list_set sdg_id new_syntax mt \<sigma> =
     (let ids = list_set (map (\<lambda>item. SDG_id (heap \<sigma> item)) (SDG_keys_refs \<sigma>))
      in if sdg_id \<notin> set ids
         then (Inl (ValueError (Invalid_input_id sdg_id ids)), \<sigma>)
         else if mt \<notin> set [''direct'', ''indirect'']
         then (Inl (ValueError (Invalid_input_match_type mt)), \<sigma>)
         else (let \<sigma>' = edit_syntax_for (SDG_keys_refs \<sigma>) sdg_id new_syntax mt \<sigma>
               in (Inr (),
                   \<sigma>'\<lparr>stdout := stdout \<sigma>' @
                      [Edited (''The '' @ mt @ '' match syntax of '' @ sdg_id
                                 @ '' has been updated.'')]\<rparr>)))"

text \<open>Calls of the three functions that use \<^verbatim>\<open>SDG_keys\<close>, and the state after a sequence
  of them, each one run to its end or to its exception.\<close>

datatype call =
    Id_sus pyval
  | Show_syntax string
  | Edit_syntax string string string

fun is_edit :: "call \<Rightarrow> bool" where
  "is_edit (Edit_syntax sdg_id new_syntax mt) = True"
| "is_edit c = False"

fun exec :: "list_set \<Rightarrow> search \<Rightarrow> call \<Rightarrow> py_state \<Rightarrow> py_state" where
  "exec list_set search (Id_sus text) \<sigma> = snd (id_sus_st list_set search text \<sigma>)"
| "exec list_set search (Show_syntax sdg_id) \<sigma> = snd (show_syntax_st list_set sdg_id \<sigma>)"
| "exec list_set search (Edit_syntax sdg_id new_syntax mt) \<sigma> =
     snd (edit_syntax_st list_set sdg_id new_syntax mt \<sigma>)"

fun run :: "list_set \<Rightarrow> search \<Rightarrow> call list \<Rightarrow> py_state \<Rightarrow> py_state" where
  "run list_set search [] \<sigma> = \<sigma>"
| "run list_set search (c # cs) \<sigma> = run list_set search cs (exec list_set search c \<sigma>)"

text \<open>Two results of \<^verbatim>\<open>id_sus\<close> that are the same up to the order and repetition of the
  entries of the three lists (the order of \<^verbatim>\<open>list(set(..))\<close> is not fixed by Python), or
  the same exception.\<close>

definition same_outcome ::
  "error + (string list \<times> string list \<times> string list)
    \<Rightarrow> error + (string list \<times> string list \<times> string list) \<Rightarrow> bool" where
  "same_outcome r r' =
     (case r of
        Inl e \<Rightarrow> r' = Inl e
      | Inr (sdgs, targets, matches) \<Rightarrow>
          (case r' of
             Inl e' \<Rightarrow> False
           | Inr (sdgs', targets', matches') \<Rightarrow>
               set sdgs' = set sdgs \<and> set targets' = set targets \<and> set matches' = set matches))"

text \<open>A matcher to run the model on examples: the pattern is found when it occurs in
  the text as a substring, and the pattern \<open>''(''\<close> does not compile.\<close>

fun occurs :: "string \<Rightarrow> string \<Rightarrow> bool" where
  "occurs p [] = (p = [])"
| "occurs p (c # cs) = (take (length p) (c # cs) = p \<or> occurs p cs)"

definition substring_search :: search where
  "substring_search p t = (if p = ''('' then Inl (Regex_error p) else Inr (occurs p t))"

text \<open>Small tables to run the model on: three rules for two targets, and rows of the
  dimension table and of the two description tables.\<close>

definition example_keys :: catalog where
  "example_keys =
     [\<lparr>SDG_id = ''SDG1_1'', SDG_keywords = ''sdg 1'', match_type = ''direct''\<rparr>,
      \<lparr>SDG_id = ''SDG1_1'', SDG_keywords = ''poverty'', match_type = ''indirect''\<rparr>,
      \<lparr>SDG_id = ''SDG2_1'', SDG_keywords = ''hunger'', match_type = ''indirect''\<rparr>]"

definition example_see_keys :: "see_row list" where
  "example_see_keys = [(''SDG1_1'', 1, 0, 1), (''SDG2_1'', 1, 0, 0), (''SDG13_1'', 0, 1, 0)]"

definition example_goal_desc :: "desc_row list" where
  "example_goal_desc = [(''SDG1'', ''No poverty''), (''SDG2'', ''Zero hunger'')]"

definition example_tar_desc :: "desc_row list" where
  "example_tar_desc = [(''SDG1_1'', ''Eradicate extreme poverty''), (''SDG2_1'', ''End hunger'')]"

text \<open>A state whose catalog is \<open>example_keys\<close>, with something left in the first of the
  three lists.\<close>

definition example_state :: py_state where
  "example_state =
     \<lparr>heap = (\<lambda>a.
         if a = 0 then \<lparr>SDG_id = ''SDG1_1'', SDG_keywords = ''sdg 1'', match_type = ''direct''\<rparr>
         else if a = 1 then \<lparr>SDG_id = ''SDG1_1'', SDG_keywords = ''poverty'', match_type = ''indirect''\<rparr>
         else \<lparr>SDG_id = ''SDG2_1'', SDG_keywords = ''hunger'', match_type = ''indirect''\<rparr>),
      SDG_keys_refs = [0, 1, 2],
      stdout = [],
      sdgs_var = [''SDG17''],
      targets_var = [],
      matches_var = []\<rparr>"

section \<open>Properties of \<^verbatim>\<open>id_sus\<close>\<close>

lemma is_list_set_remdups: "is_list_set remdups"
  by (simp add: is_list_set_def)

text \<open>What the loop has appended when it ends: one entry per rule whose pattern is
  found, in catalog order.\<close>

lemma id_sus_loop_Inr:
  "id_sus_loop search K t (a, b, c) = Inr (a', b', c') \<Longrightarrow>
     a' = a @ map (\<lambda>r. split_first (SDG_id r)) (filter (\<lambda>r. search (SDG_keywords r) t = Inr True) K) \<and>
     b' = b @ map SDG_id (filter (\<lambda>r. search (SDG_keywords r) t = Inr True) K) \<and>
     c' = c @ map match_type (filter (\<lambda>r. search (SDG_keywords r) t = Inr True) K)"
proof (induction K arbitrary: a b c)
  case Nil
  then show ?case by simp
next
  case (Cons item rest)
  show ?case
  proof (cases "search (SDG_keywords item) t")
    case (Inl e)
    with Cons.prems show ?thesis by simp
  next
    case (Inr found)
    show ?thesis
    proof (cases found)
      case True
      with Inr Cons.prems
        Cons.IH [of "a @ [split_first (SDG_id item)]" "b @ [SDG_id item]" "c @ [match_type item]"]
      show ?thesis by simp
    next
      case False
      with Inr Cons.prems Cons.IH [of a b c] show ?thesis by simp
    qed
  qed
qed

text \<open>The loop raises only what \<^verbatim>\<open>re.search\<close> raised on one of the rules, and it
  returns when no search raises.\<close>

lemma id_sus_loop_Inl:
  "id_sus_loop search K t acc = Inl e \<Longrightarrow> \<exists>r\<in>set K. search (SDG_keywords r) t = Inl e"
proof (induction K arbitrary: acc)
  case Nil
  then show ?case by (cases acc) simp
next
  case (Cons item rest)
  obtain a b c where acc: "acc = (a, b, c)" by (cases acc)
  show ?case
  proof (cases "search (SDG_keywords item) t")
    case (Inl e')
    with Cons.prems acc show ?thesis by simp
  next
    case (Inr found)
    with Cons.prems acc obtain acc' where "id_sus_loop search rest t acc' = Inl e"
      by (cases found) auto
    with Cons.IH show ?thesis by auto
  qed
qed

lemma id_sus_loop_returns:
  "\<forall>r\<in>set K. \<exists>b. search (SDG_keywords r) t = Inr b \<Longrightarrow> \<exists>res. id_sus_loop search K t acc = Inr res"
proof (induction K arbitrary: acc)
  case Nil
  then show ?case by (cases acc) simp
next
  case (Cons item rest)
  obtain a b c where acc: "acc = (a, b, c)" by (cases acc)
  from Cons.prems obtain found where f: "search (SDG_keywords item) t = Inr found" by auto
  from Cons.prems have "\<forall>r\<in>set rest. \<exists>b. search (SDG_keywords r) t = Inr b" by simp
  then show ?case using Cons.IH acc f by simp
qed

lemma id_sus_returns:
  "\<forall>r\<in>set K. \<exists>b. search (SDG_keywords r) s = Inr b \<Longrightarrow>
     \<exists>res. id_sus list_set search K (PyStr s) = Inr res"
  using id_sus_loop_returns [of K search s "([], [], [])"]
  by (auto simp: id_sus_def split: sum.splits)

lemma id_sus_Inl:
  "id_sus list_set search K (PyStr s) = Inl e \<Longrightarrow> \<exists>r\<in>set K. search (SDG_keywords r) s = Inl e"
  using id_sus_loop_Inl [of search K s "([], [], [])" e]
  by (auto simp: id_sus_def split: sum.splits)

lemma id_sus_Inr:
  assumes "id_sus list_set search K v = Inr (sdgs, targets, matches)"
  obtains s where "v = PyStr s"
    and "sdgs = list_set (map (\<lambda>r. split_first (SDG_id r))
                   (filter (\<lambda>r. search (SDG_keywords r) s = Inr True) K))"
    and "targets = list_set (map SDG_id (filter (\<lambda>r. search (SDG_keywords r) s = Inr True) K))"
    and "matches = list_set (map match_type (filter (\<lambda>r. search (SDG_keywords r) s = Inr True) K))"
proof -
  from assms obtain s where s: "v = PyStr s"
    by (cases v) (simp_all add: id_sus_def)
  with assms obtain a b c where l: "id_sus_loop search K s ([], [], []) = Inr (a, b, c)"
    and e: "sdgs = list_set a" "targets = list_set b" "matches = list_set c"
    by (auto simp: id_sus_def split: sum.splits)
  from id_sus_loop_Inr [OF l] e s that show thesis by simp
qed

lemma distinct_count_list_1: "distinct xs \<Longrightarrow> x \<in> set xs \<Longrightarrow> count_list xs x = 1"
  by (induction xs) auto

text \<open>
  Claim C1. For every string \<open>s\<close>, \<^verbatim>\<open>id_sus\<close> either returns, and then the goals it
  returns are, as a set, exactly the prefixes (the part before the first underscore) of
  the targets it returns; or it raises the exception that \<^verbatim>\<open>re.search\<close> raised on one
  of the rules, and returns nothing.
\<close>

theorem id_sus_goals_are_target_prefixes:
  assumes "is_list_set list_set"
  shows "case id_sus list_set search SDG_keys (PyStr s) of
           Inr (sdgs, targets, matches) \<Rightarrow> set sdgs = split_first ` set targets
         | Inl e \<Rightarrow> \<exists>r\<in>set SDG_keys. search (SDG_keywords r) s = Inl e"
proof (cases "id_sus list_set search SDG_keys (PyStr s)")
  case (Inl e)
  then show ?thesis by (simp add: id_sus_Inl)
next
  case (Inr res)
  obtain sdgs targets matches where res: "res = (sdgs, targets, matches)" by (cases res)
  from Inr res obtain s' where
    "sdgs = list_set (map (\<lambda>r. split_first (SDG_id r))
              (filter (\<lambda>r. search (SDG_keywords r) s' = Inr True) SDG_keys))"
    "targets = list_set (map SDG_id (filter (\<lambda>r. search (SDG_keywords r) s' = Inr True) SDG_keys))"
    by (auto elim: id_sus_Inr)
  with assms have "set sdgs = split_first ` set targets"
    by (auto simp: is_list_set_def)
  with Inr res show ?thesis by simp
qed

theorem id_sus_goals_are_target_prefixes_witness:
  "is_list_set remdups
   \<and> id_sus remdups substring_search example_keys (PyStr ''poverty (sdg 1), hunger'')
       = Inr ([''SDG1'', ''SDG2''], [''SDG1_1'', ''SDG2_1''], [''direct'', ''indirect''])
   \<and> set [''SDG1'', ''SDG2''] = split_first ` set [''SDG1_1'', ''SDG2_1'']"
proof -
  have r: "id_sus remdups substring_search example_keys (PyStr ''poverty (sdg 1), hunger'')
       = Inr ([''SDG1'', ''SDG2''], [''SDG1_1'', ''SDG2_1''], [''direct'', ''indirect''])"
    by (simp add: id_sus_def example_keys_def substring_search_def split_first_def)
  from id_sus_goals_are_target_prefixes
         [where search = substring_search and SDG_keys = example_keys
            and s = "''poverty (sdg 1), hunger''", OF is_list_set_remdups]
  have "set [''SDG1'', ''SDG2''] = split_first ` set [''SDG1_1'', ''SDG2_1'']"
    unfolding r by simp
  with r is_list_set_remdups show ?thesis by blast
qed

text \<open>
  Claim C6. When a target has a direct rule and an indirect rule in the catalog and
  both patterns are found in the string \<open>s\<close>, then \<^verbatim>\<open>id_sus\<close> either returns, with both
  \<open>''direct''\<close> and \<open>''indirect''\<close> among the match types and the target exactly once in
  the target list; or it raises the exception that \<^verbatim>\<open>re.search\<close> raised on one of the
  rules. The loop has no \<^verbatim>\<open>break\<close>: every rule is searched.
\<close>

theorem id_sus_both_match_types_one_target:
  assumes "is_list_set list_set"
    and "d \<in> set SDG_keys" "SDG_id d = sdg_id" "match_type d = ''direct''"
        "search (SDG_keywords d) s = Inr True"
    and "i \<in> set SDG_keys" "SDG_id i = sdg_id" "match_type i = ''indirect''"
        "search (SDG_keywords i) s = Inr True"
  shows "case id_sus list_set search SDG_keys (PyStr s) of
           Inr (sdgs, targets, matches) \<Rightarrow>
             ''direct'' \<in> set matches \<and> ''indirect'' \<in> set matches
             \<and> count_list targets sdg_id = 1
         | Inl e \<Rightarrow> \<exists>r\<in>set SDG_keys. search (SDG_keywords r) s = Inl e"
proof (cases "id_sus list_set search SDG_keys (PyStr s)")
  case (Inl e)
  then show ?thesis by (simp add: id_sus_Inl)
next
  case (Inr res)
  obtain sdgs targets matches where res: "res = (sdgs, targets, matches)" by (cases res)
  let ?hits = "filter (\<lambda>r. search (SDG_keywords r) s = Inr True) SDG_keys"
  from Inr res have t: "targets = list_set (map SDG_id ?hits)"
    and m: "matches = list_set (map match_type ?hits)"
    by (auto elim: id_sus_Inr)
  from assms have "d \<in> set ?hits" "i \<in> set ?hits" by simp_all
  then have "''direct'' \<in> match_type ` set ?hits" "''indirect'' \<in> match_type ` set ?hits"
    "sdg_id \<in> SDG_id ` set ?hits"
    using assms(3,4,8) by (metis imageI)+
  with assms(1) t m have "''direct'' \<in> set matches" "''indirect'' \<in> set matches"
    "sdg_id \<in> set targets" "distinct targets"
    by (simp_all add: is_list_set_def)
  then have "''direct'' \<in> set matches \<and> ''indirect'' \<in> set matches
      \<and> count_list targets sdg_id = 1"
    by (simp add: distinct_count_list_1)
  with Inr res show ?thesis by simp
qed

theorem id_sus_both_match_types_one_target_witness:
  "id_sus remdups substring_search example_keys (PyStr ''sdg 1: end poverty'')
       = Inr ([''SDG1''], [''SDG1_1''], [''direct'', ''indirect''])
   \<and> ''direct'' \<in> set [''direct'', ''indirect'']
   \<and> ''indirect'' \<in> set [''direct'', ''indirect'']
   \<and> count_list [''SDG1_1''] ''SDG1_1'' = 1"
proof -
  let ?d = "\<lparr>SDG_id = ''SDG1_1'', SDG_keywords = ''sdg 1'', match_type = ''direct''\<rparr>"
  let ?i = "\<lparr>SDG_id = ''SDG1_1'', SDG_keywords = ''poverty'', match_type = ''indirect''\<rparr>"
  have r: "id_sus remdups substring_search example_keys (PyStr ''sdg 1: end poverty'')
       = Inr ([''SDG1''], [''SDG1_1''], [''direct'', ''indirect''])"
    by (simp add: id_sus_def example_keys_def substring_search_def split_first_def)
  have "?d \<in> set example_keys" "SDG_id ?d = ''SDG1_1''" "match_type ?d = ''direct''"
    "substring_search (SDG_keywords ?d) ''sdg 1: end poverty'' = Inr True"
    "?i \<in> set example_keys" "SDG_id ?i = ''SDG1_1''" "match_type ?i = ''indirect''"
    "substring_search (SDG_keywords ?i) ''sdg 1: end poverty'' = Inr True"
    by (simp_all add: example_keys_def substring_search_def)
  from id_sus_both_match_types_one_target
         [where list_set = remdups and search = substring_search and SDG_keys = example_keys
            and s = "''sdg 1: end poverty''" and sdg_id = "''SDG1_1''" and d = ?d and i = ?i,
          OF is_list_set_remdups this]
  have "''direct'' \<in> set [''direct'', ''indirect'']
      \<and> ''indirect'' \<in> set [''direct'', ''indirect'']
      \<and> count_list [''SDG1_1''] ''SDG1_1'' = 1"
    unfolding r by simp
  with r show ?thesis by blast
qed

text \<open>
  Claim C3, as the code has it. Called with a value that is not a string, \<^verbatim>\<open>id_sus\<close>
  raises \<^verbatim>\<open>ValueError("Input must be a string.")\<close> (line 20 of the source) and produces
  no result.
\<close>

theorem id_sus_non_string_raises:
  "\<not> isinstance_str v \<Longrightarrow>
     id_sus list_set search SDG_keys v = Inl (ValueError Input_must_be_a_string)"
  by (cases v) (simp_all add: id_sus_def)

theorem id_sus_non_string_raises_witness:
  "\<not> isinstance_str (PyInt 2030)
   \<and> id_sus remdups substring_search example_keys (PyInt 2030)
       = Inl (ValueError Input_must_be_a_string)"
  using id_sus_non_string_raises [of "PyInt 2030" remdups substring_search example_keys]
  by simp

text \<open>The exception is not the \<^verbatim>\<open>TypeError\<close> of the claim's wording: at the argument
  \<^verbatim>\<open>None\<close> the call raises \<^verbatim>\<open>ValueError\<close>, which \<^verbatim>\<open>except TypeError\<close> does not
  catch.\<close>

theorem id_sus_type_error_counterexample:
  "id_sus remdups substring_search example_keys PyNone = Inl (ValueError Input_must_be_a_string)
   \<and> \<not> raises_TypeError (id_sus remdups substring_search example_keys PyNone)"
  by (simp add: id_sus_def raises_TypeError_def)

section \<open>Properties of \<^verbatim>\<open>cat_sus\<close>\<close>

text \<open>The two loops add, for every row, each flag once per occurrence of the row's id in
  the input list.\<close>

lemma cat_sus_inner_closed:
  "cat_sus_inner (sdg_id, soc, env, econ) target see =
     see\<lparr>social_sustainability := social_sustainability see + soc * int (count_list target sdg_id),
         environmental_sustainability := environmental_sustainability see + env * int (count_list target sdg_id),
         economic_sustainability := economic_sustainability see + econ * int (count_list target sdg_id)\<rparr>"
  by (induction target arbitrary: see) (simp_all add: algebra_simps)

lemma cat_sus_outer_closed:
  "cat_sus_outer see_keys target see =
     see\<lparr>social_sustainability := social_sustainability see
            + (\<Sum>(sdg_id, soc, env, econ)\<leftarrow>see_keys. soc * int (count_list target sdg_id)),
         environmental_sustainability := environmental_sustainability see
            + (\<Sum>(sdg_id, soc, env, econ)\<leftarrow>see_keys. env * int (count_list target sdg_id)),
         economic_sustainability := economic_sustainability see
            + (\<Sum>(sdg_id, soc, env, econ)\<leftarrow>see_keys. econ * int (count_list target sdg_id))\<rparr>"
proof (induction see_keys arbitrary: see)
  case Nil
  then show ?case by simp
next
  case (Cons item rest)
  obtain sdg_id soc env econ where "item = (sdg_id, soc, env, econ)" by (cases item)
  with Cons show ?case by (simp add: cat_sus_inner_closed algebra_simps)
qed

lemma sum_list_nonneg_pos_iff:
  fixes f :: "'a \<Rightarrow> int"
  assumes "\<forall>x\<in>set xs. 0 \<le> f x"
  shows "0 < sum_list (map f xs) \<longleftrightarrow> (\<exists>x\<in>set xs. 0 < f x)"
  using assms
proof (induction xs)
  case Nil
  then show ?case by simp
next
  case (Cons x xs)
  then have fx: "0 \<le> f x" and all: "\<forall>y\<in>set xs. 0 \<le> f y"
    by simp_all
  have rest: "0 \<le> sum_list (map f xs)"
  proof (rule sum_list_nonneg)
    fix y assume "y \<in> set (map f xs)"
    with all show "0 \<le> y" by auto
  qed
  from Cons.IH all have ih: "0 < sum_list (map f xs) \<longleftrightarrow> (\<exists>y\<in>set xs. 0 < f y)"
    by simp
  have "0 < f x + sum_list (map f xs) \<longleftrightarrow> 0 < f x \<or> 0 < sum_list (map f xs)"
    using fx rest by arith
  with ih show ?case by simp
qed

lemma count_list_pos_iff: "0 < count_list xs x \<longleftrightarrow> x \<in> set xs"
  by (induction xs) auto

lemma weighted_count_pos_iff:
  fixes flag :: "'a \<Rightarrow> int"
  assumes "\<forall>x\<in>set rows. 0 \<le> flag x"
  shows "0 < (\<Sum>x\<leftarrow>rows. flag x * int (count_list target (key x)))
     \<longleftrightarrow> (\<exists>x\<in>set rows. key x \<in> set target \<and> flag x \<noteq> 0)"
proof -
  have "\<forall>x\<in>set rows. 0 \<le> flag x * int (count_list target (key x))"
    using assms by simp
  then have "0 < (\<Sum>x\<leftarrow>rows. flag x * int (count_list target (key x)))
     \<longleftrightarrow> (\<exists>x\<in>set rows. 0 < flag x * int (count_list target (key x)))"
    by (rule sum_list_nonneg_pos_iff)
  also have "\<dots> \<longleftrightarrow> (\<exists>x\<in>set rows. key x \<in> set target \<and> flag x \<noteq> 0)"
  proof (rule bex_cong [OF refl])
    fix x assume "x \<in> set rows"
    with assms have "0 \<le> flag x" by simp
    then show "0 < flag x * int (count_list target (key x)) \<longleftrightarrow> key x \<in> set target \<and> flag x \<noteq> 0"
      using count_list_pos_iff [of target "key x"] by (auto simp: zero_less_mult_iff)
  qed
  finally show ?thesis .
qed

text \<open>
  Claim C2. For a dimension table whose flags are not negative, and every list of
  target ids: \<^verbatim>\<open>cat_sus\<close> returns a dimension as true if and only if some row of
  \<^verbatim>\<open>see_keys\<close> whose id is in the input list has that flag nonzero. On the empty list
  all three dimensions are false.
\<close>

theorem cat_sus_flag_iff:
  assumes "flags_nonneg see_keys"
  shows "(social_sustainability (cat_sus see_keys target) \<longleftrightarrow>
            (\<exists>(sdg_id, soc, env, econ)\<in>set see_keys. sdg_id \<in> set target \<and> soc \<noteq> 0))
       \<and> (environmental_sustainability (cat_sus see_keys target) \<longleftrightarrow>
            (\<exists>(sdg_id, soc, env, econ)\<in>set see_keys. sdg_id \<in> set target \<and> env \<noteq> 0))
       \<and> (economic_sustainability (cat_sus see_keys target) \<longleftrightarrow>
            (\<exists>(sdg_id, soc, env, econ)\<in>set see_keys. sdg_id \<in> set target \<and> econ \<noteq> 0))
       \<and> cat_sus see_keys [] =
            \<lparr>social_sustainability = False,
             environmental_sustainability = False,
             economic_sustainability = False\<rparr>"
proof -
  from assms have soc: "\<forall>x\<in>set see_keys. 0 \<le> fst (snd x)"
    and env: "\<forall>x\<in>set see_keys. 0 \<le> fst (snd (snd x))"
    and econ: "\<forall>x\<in>set see_keys. 0 \<le> snd (snd (snd x))"
    by (auto simp: flags_nonneg_def list_all_iff)
  have "social_sustainability (cat_sus see_keys target) \<longleftrightarrow>
      (\<exists>x\<in>set see_keys. fst x \<in> set target \<and> fst (snd x) \<noteq> 0)" for target
    using weighted_count_pos_iff [OF soc, of target fst]
    by (simp add: cat_sus_def cat_sus_outer_closed Let_def split_def)
  moreover have "environmental_sustainability (cat_sus see_keys target) \<longleftrightarrow>
      (\<exists>x\<in>set see_keys. fst x \<in> set target \<and> fst (snd (snd x)) \<noteq> 0)" for target
    using weighted_count_pos_iff [OF env, of target fst]
    by (simp add: cat_sus_def cat_sus_outer_closed Let_def split_def)
  moreover have "economic_sustainability (cat_sus see_keys target) \<longleftrightarrow>
      (\<exists>x\<in>set see_keys. fst x \<in> set target \<and> snd (snd (snd x)) \<noteq> 0)" for target
    using weighted_count_pos_iff [OF econ, of target fst]
    by (simp add: cat_sus_def cat_sus_outer_closed Let_def split_def)
  moreover have "cat_sus see_keys [] =
            \<lparr>social_sustainability = False,
             environmental_sustainability = False,
             economic_sustainability = False\<rparr>"
    by (simp add: cat_sus_def cat_sus_outer_closed Let_def split_def)
  ultimately show ?thesis by (simp add: split_def)
qed

theorem cat_sus_flag_iff_witness:
  "flags_nonneg example_see_keys
   \<and> social_sustainability (cat_sus example_see_keys [''SDG1_1'', ''SDG4_2''])
   \<and> \<not> environmental_sustainability (cat_sus example_see_keys [''SDG1_1'', ''SDG4_2''])
   \<and> economic_sustainability (cat_sus example_see_keys [''SDG1_1'', ''SDG4_2''])
   \<and> cat_sus example_see_keys [] =
        \<lparr>social_sustainability = False,
         environmental_sustainability = False,
         economic_sustainability = False\<rparr>"
proof -
  have f: "flags_nonneg example_see_keys"
    by (simp add: flags_nonneg_def example_see_keys_def)
  from cat_sus_flag_iff [OF f, of "[''SDG1_1'', ''SDG4_2'']"] f show ?thesis
    by (simp add: example_see_keys_def)
qed

text \<open>The hypothesis on the table is needed: with a negative flag the sum that the code
  compares with 0 can stay at or below 0 although a matched row has the flag nonzero.\<close>

lemma cat_sus_negative_flag_example:
  "\<not> social_sustainability (cat_sus [(''SDG1_1'', - 1, 0, 0)] [''SDG1_1''])"
  by (simp add: cat_sus_def)

section \<open>Properties of \<^verbatim>\<open>label_sdg\<close> and \<^verbatim>\<open>label_target\<close>\<close>

text \<open>The inner loop appends the row's description once per occurrence of the row's id
  in the input; the outer loop does so row after row. The two functions are the same
  code on two tables.\<close>

lemma label_sdg_inner_closed:
  "label_sdg_inner goal_id desc sdg_id sdg_desc =
     sdg_desc @ replicate (count_list sdg_id goal_id) desc"
  by (induction sdg_id arbitrary: sdg_desc) (simp_all add: replicate_app_Cons_same)

lemma label_sdg_outer_closed:
  "label_sdg_outer goal_desc sdg_id sdg_desc =
     sdg_desc @ concat (map (\<lambda>(goal_id, desc). replicate (count_list sdg_id goal_id) desc) goal_desc)"
  by (induction goal_desc sdg_id sdg_desc rule: label_sdg_outer.induct)
     (simp_all add: label_sdg_inner_closed)

lemma label_target_inner_eq: "label_target_inner = label_sdg_inner"
proof (intro ext)
  fix k d ids acc
  show "label_target_inner k d ids acc = label_sdg_inner k d ids acc"
    by (induction ids arbitrary: acc) simp_all
qed

lemma label_target_eq: "label_target = label_sdg"
proof (intro ext)
  fix table ids
  have "label_target_outer table ids acc = label_sdg_outer table ids acc" for acc
    by (induction table ids acc rule: label_sdg_outer.induct)
       (simp_all add: label_target_inner_eq)
  then show "label_target table ids = label_sdg table ids"
    by (simp add: label_target_def label_sdg_def)
qed

lemma label_sdg_closed:
  "label_sdg goal_desc sdg_id =
     concat (map (\<lambda>(goal_id, desc). replicate (count_list sdg_id goal_id) desc) goal_desc)"
  by (simp add: label_sdg_def label_sdg_outer_closed)

text \<open>
  Claim C8, as the code has it. The output of \<^verbatim>\<open>label_sdg\<close> and of \<^verbatim>\<open>label_target\<close> is
  in the order of the description table, not of the input list: for each table row in
  turn, the row's description, once per occurrence of the row's id in the input.
\<close>

theorem labels_follow_table_order:
  "label_sdg goal_desc sdg_id =
     concat (map (\<lambda>(goal_id, desc). replicate (count_list sdg_id goal_id) desc) goal_desc)
   \<and> label_target tar_desc target_id =
     concat (map (\<lambda>(tar_id, desc). replicate (count_list target_id tar_id) desc) tar_desc)"
  by (simp add: label_target_eq label_sdg_closed)

text \<open>The claim as it is worded fails: for the input \<^verbatim>\<open>["SDG2", "SDG1"]\<close> the code
  answers in table order, the wording asks for input order.\<close>

theorem labels_input_order_counterexample:
  "label_sdg example_goal_desc [''SDG2'', ''SDG1''] = [''No poverty'', ''Zero hunger'']
   \<and> spec_label_input_order example_goal_desc [''SDG2'', ''SDG1'']
       = [''Zero hunger'', ''No poverty'']
   \<and> label_sdg example_goal_desc [''SDG2'', ''SDG1'']
       \<noteq> spec_label_input_order example_goal_desc [''SDG2'', ''SDG1'']
   \<and> label_target example_tar_desc [''SDG2_1'', ''SDG1_1'']
       = [''Eradicate extreme poverty'', ''End hunger'']
   \<and> spec_label_input_order example_tar_desc [''SDG2_1'', ''SDG1_1'']
       = [''End hunger'', ''Eradicate extreme poverty'']
   \<and> label_target example_tar_desc [''SDG2_1'', ''SDG1_1'']
       \<noteq> spec_label_input_order example_tar_desc [''SDG2_1'', ''SDG1_1'']"
  by (simp add: label_sdg_def label_target_def spec_label_input_order_def
        example_goal_desc_def example_tar_desc_def)

lemma replicate_count_filter:
  "replicate (count_list ids k) d = map (\<lambda>i. d) (filter (\<lambda>i. i = k) ids)"
  by (induction ids) simp_all

lemma label_sdg_pairs:
  "label_sdg table ids =
     map (\<lambda>(row, i). snd row) (filter (\<lambda>(row, i). i = fst row) (List.product table ids))"
proof (induction table)
  case Nil
  then show ?case by (simp add: label_sdg_closed)
next
  case (Cons row table)
  have "label_sdg (row # table) ids = replicate (count_list ids (fst row)) (snd row) @ label_sdg table ids"
    by (simp add: label_sdg_closed split_def)
  also have "replicate (count_list ids (fst row)) (snd row)
      = map (\<lambda>(row, i). snd row) (filter (\<lambda>(row, i). i = fst row) (map (Pair row) ids))"
    by (simp add: replicate_count_filter filter_map comp_def)
  finally show ?case using Cons by simp
qed

text \<open>
  Claim C10. The output of \<^verbatim>\<open>label_sdg\<close> and of \<^verbatim>\<open>label_target\<close> has one entry for every
  pair of a table row and a position of the input list that holds the row's id: an id
  that occurs several times in the input gets its description as many times. In
  particular the length of the output is the number of such pairs.
\<close>

theorem labels_once_per_occurrence:
  "label_sdg goal_desc sdg_id =
     map (\<lambda>(row, i). snd row)
       (filter (\<lambda>(row, i). i = fst row) (List.product goal_desc sdg_id))
   \<and> label_target tar_desc target_id =
     map (\<lambda>(row, i). snd row)
       (filter (\<lambda>(row, i). i = fst row) (List.product tar_desc target_id))
   \<and> length (label_sdg goal_desc sdg_id) = (\<Sum>row\<leftarrow>goal_desc. count_list sdg_id (fst row))
   \<and> length (label_target tar_desc target_id) = (\<Sum>row\<leftarrow>tar_desc. count_list target_id (fst row))"
proof -
  have "length (label_sdg table ids) = (\<Sum>row\<leftarrow>table. count_list ids (fst row))" for table ids
    by (simp add: label_sdg_closed length_concat comp_def split_def)
  then show ?thesis by (simp add: label_target_eq label_sdg_pairs)
qed

lemma count_list_remove: "count_list (xs @ i # ys) k = count_list (xs @ ys) k + (if i = k then 1 else 0)"
  by (induction xs) simp_all

lemma label_sdg_skip_unknown:
  assumes "i \<notin> fst ` set table"
  shows "label_sdg table (xs @ i # ys) = label_sdg table (xs @ ys)"
proof -
  have "\<forall>row\<in>set table. count_list (xs @ i # ys) (fst row) = count_list (xs @ ys) (fst row)"
    using assms by (auto simp: count_list_remove)
  then show ?thesis
    by (auto simp: label_sdg_closed split_def intro!: arg_cong [where f = concat])
qed

lemma label_sdg_all_unknown:
  assumes "set ids \<inter> fst ` set table = {}"
  shows "label_sdg table ids = []"
proof -
  have "\<forall>row\<in>set table. count_list ids (fst row) = 0"
    using assms by (auto simp: count_list_0_iff)
  then show ?thesis by (auto simp: label_sdg_closed split_def)
qed

text \<open>
  Claim C9. An id with no row in the description table adds nothing to the output of
  \<^verbatim>\<open>label_sdg\<close> and \<^verbatim>\<open>label_target\<close> (the output is the same as without it), and an input
  list of ids that are all unknown gives the empty list. Neither function has a branch
  that raises.
\<close>

theorem labels_skip_unknown_ids:
  "(i \<notin> fst ` set goal_desc \<longrightarrow>
      label_sdg goal_desc (xs @ i # ys) = label_sdg goal_desc (xs @ ys))
   \<and> (i \<notin> fst ` set tar_desc \<longrightarrow>
      label_target tar_desc (xs @ i # ys) = label_target tar_desc (xs @ ys))
   \<and> (set sdg_id \<inter> fst ` set goal_desc = {} \<longrightarrow> label_sdg goal_desc sdg_id = [])
   \<and> (set target_id \<inter> fst ` set tar_desc = {} \<longrightarrow> label_target tar_desc target_id = [])"
  by (simp add: label_target_eq label_sdg_skip_unknown label_sdg_all_unknown)

theorem labels_skip_unknown_ids_witness:
  "''SDG99'' \<notin> fst ` set example_goal_desc
   \<and> label_sdg example_goal_desc ([''SDG2''] @ ''SDG99'' # [''SDG1''])
       = label_sdg example_goal_desc ([''SDG2''] @ [''SDG1''])
   \<and> ''SDG99'' \<notin> fst ` set example_tar_desc
   \<and> label_target example_tar_desc ([''SDG2_1''] @ ''SDG99'' # [''SDG1_1''])
       = label_target example_tar_desc ([''SDG2_1''] @ [''SDG1_1''])
   \<and> set [''SDG99'', ''nothing''] \<inter> fst ` set example_goal_desc = {}
   \<and> label_sdg example_goal_desc [''SDG99'', ''nothing''] = []
   \<and> set [''SDG99'', ''nothing''] \<inter> fst ` set example_tar_desc = {}
   \<and> label_target example_tar_desc [''SDG99'', ''nothing''] = []"
proof -
  have a: "''SDG99'' \<notin> fst ` set example_goal_desc"
    and b: "''SDG99'' \<notin> fst ` set example_tar_desc"
    and c: "set [''SDG99'', ''nothing''] \<inter> fst ` set example_goal_desc = {}"
    and d: "set [''SDG99'', ''nothing''] \<inter> fst ` set example_tar_desc = {}"
    by (simp_all add: example_goal_desc_def example_tar_desc_def)
  from labels_skip_unknown_ids
         [where i = "''SDG99''" and goal_desc = example_goal_desc and tar_desc = example_tar_desc
            and xs = "[''SDG2'']" and ys = "[''SDG1'']"
            and sdg_id = "[''SDG99'', ''nothing'']" and target_id = "[''SDG99'', ''nothing'']"]
       labels_skip_unknown_ids
         [where i = "''SDG99''" and goal_desc = example_goal_desc and tar_desc = example_tar_desc
            and xs = "[''SDG2_1'']" and ys = "[''SDG1_1'']"
            and sdg_id = "[''SDG99'', ''nothing'']" and target_id = "[''SDG99'', ''nothing'']"]
       a b c d
  show ?thesis by blast
qed

section \<open>Properties of \<^verbatim>\<open>show_syntax\<close> and \<^verbatim>\<open>edit_syntax\<close>\<close>

lemma known_ids: "is_list_set list_set \<Longrightarrow> set (list_set (map SDG_id K)) = SDG_id ` set K"
  by (simp add: is_list_set_def)

text \<open>
  Claim C4. With an id that no rule of the catalog has, \<^verbatim>\<open>show_syntax\<close> and
  \<^verbatim>\<open>edit_syntax\<close> raise \<^verbatim>\<open>ValueError\<close>; with a known id and a match type other than
  \<open>''direct''\<close> and \<open>''indirect''\<close>, \<^verbatim>\<open>edit_syntax\<close> raises \<^verbatim>\<open>ValueError\<close>; and whenever
  one of the two raises, the catalog after the call is the catalog before it.
\<close>

theorem syntax_errors_leave_catalog:
  assumes "is_list_set list_set"
  shows "(sdg_id \<notin> SDG_id ` set SDG_keys \<longrightarrow>
            show_syntax list_set SDG_keys sdg_id =
              (Inl (ValueError (Invalid_input_id sdg_id (list_set (map SDG_id SDG_keys)))), SDG_keys)
          \<and> edit_syntax list_set SDG_keys sdg_id new_syntax mt =
              (Inl (ValueError (Invalid_input_id sdg_id (list_set (map SDG_id SDG_keys)))), SDG_keys))
       \<and> (sdg_id \<in> SDG_id ` set SDG_keys \<and> mt \<noteq> ''direct'' \<and> mt \<noteq> ''indirect'' \<longrightarrow>
            edit_syntax list_set SDG_keys sdg_id new_syntax mt =
              (Inl (ValueError (Invalid_input_match_type mt)), SDG_keys))
       \<and> (\<forall>e. fst (show_syntax list_set SDG_keys sdg_id) = Inl e \<longrightarrow>
            snd (show_syntax list_set SDG_keys sdg_id) = SDG_keys)
       \<and> (\<forall>e. fst (edit_syntax list_set SDG_keys sdg_id new_syntax mt) = Inl e \<longrightarrow>
            snd (edit_syntax list_set SDG_keys sdg_id new_syntax mt) = SDG_keys)"
  using known_ids [OF assms, of SDG_keys]
  by (simp add: show_syntax_def edit_syntax_def Let_def)

theorem syntax_errors_leave_catalog_witness:
  "show_syntax remdups example_keys ''SDG9_9''
     = (Inl (ValueError (Invalid_input_id ''SDG9_9'' [''SDG1_1'', ''SDG2_1''])), example_keys)
   \<and> edit_syntax remdups example_keys ''SDG9_9'' ''innovation'' ''direct''
     = (Inl (ValueError (Invalid_input_id ''SDG9_9'' [''SDG1_1'', ''SDG2_1''])), example_keys)
   \<and> edit_syntax remdups example_keys ''SDG1_1'' ''the poor'' ''both''
     = (Inl (ValueError (Invalid_input_match_type ''both'')), example_keys)"
proof -
  have ids: "remdups (map SDG_id example_keys) = [''SDG1_1'', ''SDG2_1'']"
    and a: "''SDG9_9'' \<notin> SDG_id ` set example_keys"
    and b: "''SDG1_1'' \<in> SDG_id ` set example_keys"
    by (simp_all add: example_keys_def)
  from syntax_errors_leave_catalog
         [OF is_list_set_remdups, where sdg_id = "''SDG9_9''" and SDG_keys = example_keys
            and new_syntax = "''innovation''" and mt = "''direct''"]
       syntax_errors_leave_catalog
         [OF is_list_set_remdups, where sdg_id = "''SDG1_1''" and SDG_keys = example_keys
            and new_syntax = "''the poor''" and mt = "''both''"]
       a b
  show ?thesis unfolding ids by simp
qed

lemma edit_syntax_loop_map:
  "edit_syntax_loop K sdg_id new_syntax mt =
     map (\<lambda>item. if SDG_id item = sdg_id \<and> match_type item = mt
                  then item\<lparr>SDG_keywords := new_syntax\<rparr> else item) K"
  by (induction K) simp_all

lemma edit_syntax_Inr:
  assumes "edit_syntax list_set K sdg_id new_syntax mt = (Inr msg, K')"
  shows "K' = edit_syntax_loop K sdg_id new_syntax mt"
    and "sdg_id \<in> set (list_set (map SDG_id K))"
    and "mt = ''direct'' \<or> mt = ''indirect''"
  using assms by (auto simp: edit_syntax_def Let_def split: if_splits)

text \<open>
  Claim C5. When \<^verbatim>\<open>edit_syntax\<close> succeeds, the catalog keeps its length and order; every
  rule keeps its id and its match type; the pattern of a rule is the new pattern when
  the rule has the given id and match type and is unchanged otherwise; and
  \<^verbatim>\<open>show_syntax\<close> of the same id on the new catalog succeeds and prints the rules of
  that id, those of the given match type with the new pattern.
\<close>

theorem edit_syntax_frame_and_show:
  assumes "is_list_set list_set"
    and "edit_syntax list_set SDG_keys sdg_id new_syntax mt = (Inr msg, SDG_keys')"
  shows "length SDG_keys' = length SDG_keys
       \<and> (\<forall>n < length SDG_keys.
            SDG_id (SDG_keys' ! n) = SDG_id (SDG_keys ! n)
          \<and> match_type (SDG_keys' ! n) = match_type (SDG_keys ! n)
          \<and> SDG_keywords (SDG_keys' ! n) =
              (if SDG_id (SDG_keys ! n) = sdg_id \<and> match_type (SDG_keys ! n) = mt
               then new_syntax else SDG_keywords (SDG_keys ! n)))
       \<and> show_syntax list_set SDG_keys' sdg_id =
            (Inr (map (\<lambda>d. if match_type d = mt then d\<lparr>SDG_keywords := new_syntax\<rparr> else d)
                    (filter (\<lambda>d. SDG_id d = sdg_id) SDG_keys)),
             SDG_keys')"
proof -
  let ?upd = "\<lambda>item. if SDG_id item = sdg_id \<and> match_type item = mt
                  then item\<lparr>SDG_keywords := new_syntax\<rparr> else item"
  have K': "SDG_keys' = map ?upd SDG_keys"
    using edit_syntax_Inr(1) [OF assms(2)] by (simp add: edit_syntax_loop_map)
  from assms have known: "sdg_id \<in> SDG_id ` set SDG_keys"
    using edit_syntax_Inr(2) known_ids by blast
  have ids: "map SDG_id SDG_keys' = map SDG_id SDG_keys"
    by (simp add: K')
  have "length SDG_keys' = length SDG_keys"
    by (simp add: K')
  moreover have "\<forall>n < length SDG_keys.
            SDG_id (SDG_keys' ! n) = SDG_id (SDG_keys ! n)
          \<and> match_type (SDG_keys' ! n) = match_type (SDG_keys ! n)
          \<and> SDG_keywords (SDG_keys' ! n) =
              (if SDG_id (SDG_keys ! n) = sdg_id \<and> match_type (SDG_keys ! n) = mt
               then new_syntax else SDG_keywords (SDG_keys ! n))"
    by (simp add: K')
  moreover have "filter (\<lambda>d. SDG_id d = sdg_id) (map ?upd K) =
       map (\<lambda>d. if match_type d = mt then d\<lparr>SDG_keywords := new_syntax\<rparr> else d)
         (filter (\<lambda>d. SDG_id d = sdg_id) K)" for K
    by (induction K) simp_all
  then have "show_syntax list_set SDG_keys' sdg_id =
            (Inr (map (\<lambda>d. if match_type d = mt then d\<lparr>SDG_keywords := new_syntax\<rparr> else d)
                    (filter (\<lambda>d. SDG_id d = sdg_id) SDG_keys)),
             SDG_keys')"
    using known known_ids [OF assms(1), of SDG_keys]
    by (simp add: show_syntax_def Let_def ids) (simp add: K')
  ultimately show ?thesis by blast
qed

theorem edit_syntax_frame_and_show_witness:
  "edit_syntax remdups example_keys ''SDG1_1'' ''eradicate extreme poverty'' ''direct''
     = (Inr ''The direct match syntax of SDG1_1 has been updated.'',
        [\<lparr>SDG_id = ''SDG1_1'', SDG_keywords = ''eradicate extreme poverty'', match_type = ''direct''\<rparr>,
         \<lparr>SDG_id = ''SDG1_1'', SDG_keywords = ''poverty'', match_type = ''indirect''\<rparr>,
         \<lparr>SDG_id = ''SDG2_1'', SDG_keywords = ''hunger'', match_type = ''indirect''\<rparr>])
   \<and> show_syntax remdups
        [\<lparr>SDG_id = ''SDG1_1'', SDG_keywords = ''eradicate extreme poverty'', match_type = ''direct''\<rparr>,
         \<lparr>SDG_id = ''SDG1_1'', SDG_keywords = ''poverty'', match_type = ''indirect''\<rparr>,
         \<lparr>SDG_id = ''SDG2_1'', SDG_keywords = ''hunger'', match_type = ''indirect''\<rparr>]
        ''SDG1_1''
     = (Inr [\<lparr>SDG_id = ''SDG1_1'', SDG_keywords = ''eradicate extreme poverty'', match_type = ''direct''\<rparr>,
             \<lparr>SDG_id = ''SDG1_1'', SDG_keywords = ''poverty'', match_type = ''indirect''\<rparr>],
        [\<lparr>SDG_id = ''SDG1_1'', SDG_keywords = ''eradicate extreme poverty'', match_type = ''direct''\<rparr>,
         \<lparr>SDG_id = ''SDG1_1'', SDG_keywords = ''poverty'', match_type = ''indirect''\<rparr>,
         \<lparr>SDG_id = ''SDG2_1'', SDG_keywords = ''hunger'', match_type = ''indirect''\<rparr>])"
proof -
  have e: "edit_syntax remdups example_keys ''SDG1_1'' ''eradicate extreme poverty'' ''direct''
     = (Inr ''The direct match syntax of SDG1_1 has been updated.'',
        [\<lparr>SDG_id = ''SDG1_1'', SDG_keywords = ''eradicate extreme poverty'', match_type = ''direct''\<rparr>,
         \<lparr>SDG_id = ''SDG1_1'', SDG_keywords = ''poverty'', match_type = ''indirect''\<rparr>,
         \<lparr>SDG_id = ''SDG2_1'', SDG_keywords = ''hunger'', match_type = ''indirect''\<rparr>])"
    by (simp add: edit_syntax_def example_keys_def Let_def)
  from edit_syntax_frame_and_show [OF is_list_set_remdups e] e show ?thesis
    by (simp add: example_keys_def)
qed

section \<open>What a call of \<^verbatim>\<open>id_sus\<close> changes\<close>

text \<open>The loop writes to the three lists only.\<close>

lemma id_sus_for_frame:
  "id_sus_for search items t \<sigma> = (x, \<sigma>') \<Longrightarrow>
     heap \<sigma>' = heap \<sigma> \<and> SDG_keys_refs \<sigma>' = SDG_keys_refs \<sigma> \<and> stdout \<sigma>' = stdout \<sigma>"
proof (induction items arbitrary: \<sigma>)
  case Nil
  then show ?case by simp
next
  case (Cons item rest)
  show ?case
  proof (cases "search (SDG_keywords (heap \<sigma> item)) t")
    case (Inl e)
    with Cons.prems show ?thesis by simp
  next
    case (Inr found)
    show ?thesis
    proof (cases found)
      case True
      let ?\<sigma> = "\<sigma>\<lparr>sdgs_var := sdgs_var \<sigma> @ [split_first (SDG_id (heap \<sigma> item))],
                    targets_var := targets_var \<sigma> @ [SDG_id (heap \<sigma> item)],
                    matches_var := matches_var \<sigma> @ [match_type (heap \<sigma> item)]\<rparr>"
      from Cons.prems Inr True have "id_sus_for search rest t ?\<sigma> = (x, \<sigma>')"
        by (simp add: Let_def)
      from Cons.IH [OF this] show ?thesis by simp
    next
      case False
      with Cons.prems Inr have "id_sus_for search rest t \<sigma> = (x, \<sigma>')"
        by (simp add: Let_def)
      from Cons.IH [OF this] show ?thesis .
    qed
  qed
qed

text \<open>What the loop leaves in the three lists, and when it raises, is what the loop of
  the first reading computes on the catalog of the state.\<close>

lemma id_sus_for_loop:
  "id_sus_for search items t \<sigma> = (x, \<sigma>') \<Longrightarrow>
     id_sus_loop search (map (heap \<sigma>) items) t (sdgs_var \<sigma>, targets_var \<sigma>, matches_var \<sigma>)
       = (case x of
            Some e \<Rightarrow> Inl e
          | None \<Rightarrow> Inr (sdgs_var \<sigma>', targets_var \<sigma>', matches_var \<sigma>'))"
proof (induction items arbitrary: \<sigma>)
  case Nil
  then show ?case by auto
next
  case (Cons item rest)
  show ?case
  proof (cases "search (SDG_keywords (heap \<sigma> item)) t")
    case (Inl e)
    with Cons.prems show ?thesis by auto
  next
    case (Inr found)
    show ?thesis
    proof (cases found)
      case True
      let ?\<sigma> = "\<sigma>\<lparr>sdgs_var := sdgs_var \<sigma> @ [split_first (SDG_id (heap \<sigma> item))],
                    targets_var := targets_var \<sigma> @ [SDG_id (heap \<sigma> item)],
                    matches_var := matches_var \<sigma> @ [match_type (heap \<sigma> item)]\<rparr>"
      from Cons.prems Inr True have "id_sus_for search rest t ?\<sigma> = (x, \<sigma>')"
        by (simp add: Let_def)
      from Cons.IH [OF this] Inr True show ?thesis by simp
    next
      case False
      with Cons.prems Inr have "id_sus_for search rest t \<sigma> = (x, \<sigma>')"
        by (simp add: Let_def)
      from Cons.IH [OF this] Inr False show ?thesis by simp
    qed
  qed
qed

text \<open>A call changes nothing but the three lists, and its result is the result of the
  first reading on the catalog of the state: it does not depend on what the three lists
  held before.\<close>

lemma id_sus_st_frame:
  assumes "id_sus_st list_set search v \<sigma> = (r, \<sigma>')"
  shows "heap \<sigma>' = heap \<sigma> \<and> SDG_keys_refs \<sigma>' = SDG_keys_refs \<sigma> \<and> stdout \<sigma>' = stdout \<sigma>"
proof (cases v)
  case (PyStr s)
  let ?\<sigma>0 = "\<sigma>\<lparr>sdgs_var := [], targets_var := [], matches_var := []\<rparr>"
  obtain x \<sigma>1 where l: "id_sus_for search (SDG_keys_refs \<sigma>) s ?\<sigma>0 = (x, \<sigma>1)"
    by (cases "id_sus_for search (SDG_keys_refs \<sigma>) s ?\<sigma>0")
  from id_sus_for_frame [OF l]
  have "heap \<sigma>1 = heap \<sigma> \<and> SDG_keys_refs \<sigma>1 = SDG_keys_refs \<sigma> \<and> stdout \<sigma>1 = stdout \<sigma>"
    by simp
  with assms PyStr l show ?thesis
    by (cases x) (auto simp: id_sus_st_def Let_def)
qed (use assms in \<open>auto simp: id_sus_st_def\<close>)

lemma id_sus_st_result:
  "fst (id_sus_st list_set search v \<sigma>) = id_sus list_set search (catalog_of \<sigma>) v"
proof (cases v)
  case (PyStr s)
  let ?\<sigma>0 = "\<sigma>\<lparr>sdgs_var := [], targets_var := [], matches_var := []\<rparr>"
  obtain x \<sigma>1 where l: "id_sus_for search (SDG_keys_refs \<sigma>) s ?\<sigma>0 = (x, \<sigma>1)"
    by (cases "id_sus_for search (SDG_keys_refs \<sigma>) s ?\<sigma>0")
  from id_sus_for_loop [OF l]
  have "id_sus_loop search (catalog_of \<sigma>) s ([], [], [])
      = (case x of Some e \<Rightarrow> Inl e
         | None \<Rightarrow> Inr (sdgs_var \<sigma>1, targets_var \<sigma>1, matches_var \<sigma>1))"
    by (simp add: catalog_of_def)
  with PyStr l show ?thesis
    by (cases x) (simp_all add: id_sus_st_def id_sus_def Let_def)
qed (simp_all add: id_sus_st_def id_sus_def)

text \<open>\<^verbatim>\<open>show_syntax\<close> writes to \<open>stdout\<close> only, so calls that are not \<^verbatim>\<open>edit_syntax\<close>
  leave the dict objects and the list \<^verbatim>\<open>SDG_keys\<close> as they are.\<close>

lemma exec_no_edit:
  assumes "\<not> is_edit c"
  shows "heap (exec list_set search c \<sigma>) = heap \<sigma>
       \<and> SDG_keys_refs (exec list_set search c \<sigma>) = SDG_keys_refs \<sigma>"
proof (cases c)
  case (Id_sus v)
  then show ?thesis
    using id_sus_st_frame [of list_set search v \<sigma>] by (simp add: prod_eq_iff)
next
  case (Show_syntax sdg_id)
  then show ?thesis by (simp add: show_syntax_st_def Let_def)
next
  case (Edit_syntax sdg_id new_syntax mt)
  with assms show ?thesis by simp
qed

lemma run_no_edit:
  "\<forall>c\<in>set cs. \<not> is_edit c \<Longrightarrow>
     heap (run list_set search cs \<sigma>) = heap \<sigma>
     \<and> SDG_keys_refs (run list_set search cs \<sigma>) = SDG_keys_refs \<sigma>"
proof (induction cs arbitrary: \<sigma>)
  case Nil
  then show ?case by simp
next
  case (Cons c cs)
  then have "\<not> is_edit c" and "\<forall>c\<in>set cs. \<not> is_edit c" by simp_all
  with Cons.IH [of "exec list_set search c \<sigma>"] exec_no_edit [of c list_set search \<sigma>]
  show ?case by simp
qed

text \<open>Two orders of \<^verbatim>\<open>list(set(..))\<close> give the same exception or the same three sets.\<close>

lemma id_sus_same_outcome:
  assumes "is_list_set list_set" and "is_list_set list_set'"
  shows "same_outcome (id_sus list_set search K v) (id_sus list_set' search K v)"
proof (cases v)
  case (PyStr s)
  show ?thesis
  proof (cases "id_sus_loop search K s ([], [], [])")
    case (Inl e)
    with PyStr show ?thesis by (simp add: same_outcome_def id_sus_def)
  next
    case (Inr res)
    obtain a b c where "res = (a, b, c)" by (cases res)
    with Inr PyStr assms show ?thesis
      by (simp add: same_outcome_def id_sus_def is_list_set_def)
  qed
qed (simp_all add: same_outcome_def id_sus_def)

text \<open>
  Claim C7. A call of \<^verbatim>\<open>id_sus\<close> writes to nothing but the three lists it creates: the
  dict objects of the catalog, the list \<^verbatim>\<open>SDG_keys\<close> and the output are after the call
  what they were before it, whether the call returns or raises. After any further calls
  that are not \<^verbatim>\<open>edit_syntax\<close>, a second call on the same argument has the same outcome
  as the first: the same exception, or the same goals, targets and match types. The two
  results are equal as lists when \<^verbatim>\<open>list(set(..))\<close> orders the second as it ordered the
  first, and equal as sets for any two orders.
\<close>

theorem id_sus_pure:
  assumes "is_list_set list_set" and "is_list_set list_set'"
    and "id_sus_st list_set search v \<sigma> = (r1, \<sigma>1)"
    and "\<forall>c\<in>set cs. \<not> is_edit c"
    and "id_sus_st list_set' search v (run list_set search cs \<sigma>1) = (r2, \<sigma>2)"
  shows "heap \<sigma>1 = heap \<sigma> \<and> SDG_keys_refs \<sigma>1 = SDG_keys_refs \<sigma> \<and> stdout \<sigma>1 = stdout \<sigma>
       \<and> heap \<sigma>2 = heap \<sigma> \<and> SDG_keys_refs \<sigma>2 = SDG_keys_refs \<sigma>
       \<and> stdout \<sigma>2 = stdout (run list_set search cs \<sigma>1)
       \<and> same_outcome r1 r2
       \<and> (list_set' = list_set \<longrightarrow> r2 = r1)"
proof -
  let ?\<sigma> = "run list_set search cs \<sigma>1"
  from id_sus_st_frame [OF assms(3)]
  have f1: "heap \<sigma>1 = heap \<sigma>" "SDG_keys_refs \<sigma>1 = SDG_keys_refs \<sigma>" "stdout \<sigma>1 = stdout \<sigma>"
    by simp_all
  from run_no_edit [OF assms(4), of list_set search \<sigma>1] f1
  have fr: "heap ?\<sigma> = heap \<sigma>" "SDG_keys_refs ?\<sigma> = SDG_keys_refs \<sigma>"
    by simp_all
  from id_sus_st_frame [OF assms(5)] fr
  have f2: "heap \<sigma>2 = heap \<sigma>" "SDG_keys_refs \<sigma>2 = SDG_keys_refs \<sigma>" "stdout \<sigma>2 = stdout ?\<sigma>"
    by simp_all
  have c: "catalog_of ?\<sigma> = catalog_of \<sigma>"
    using fr by (simp add: catalog_of_def)
  have r1: "r1 = id_sus list_set search (catalog_of \<sigma>) v"
    using id_sus_st_result [of list_set search v \<sigma>] assms(3) by simp
  have r2: "r2 = id_sus list_set' search (catalog_of \<sigma>) v"
    using id_sus_st_result [of list_set' search v ?\<sigma>] assms(5) c by simp
  have "same_outcome r1 r2"
    unfolding r1 r2 using assms(1,2) by (rule id_sus_same_outcome)
  moreover have "list_set' = list_set \<longrightarrow> r2 = r1"
    by (simp add: r1 r2)
  ultimately show ?thesis using f1 f2 by simp
qed

theorem id_sus_pure_witness:
  "id_sus_st remdups substring_search (PyStr ''poverty and hunger'') example_state
     = (Inr ([''SDG1'', ''SDG2''], [''SDG1_1'', ''SDG2_1''], [''indirect'']),
        example_state\<lparr>sdgs_var := [''SDG1'', ''SDG2''],
                        targets_var := [''SDG1_1'', ''SDG2_1''],
                        matches_var := [''indirect'']\<rparr>)
   \<and> fst (id_sus_st (\<lambda>xs. rev (remdups xs)) substring_search (PyStr ''poverty and hunger'')
           (run remdups substring_search
              [Show_syntax ''SDG1_1'', Id_sus PyNone, Show_syntax ''SDG9_9'']
              (example_state\<lparr>sdgs_var := [''SDG1'', ''SDG2''],
                              targets_var := [''SDG1_1'', ''SDG2_1''],
                              matches_var := [''indirect'']\<rparr>)))
     = Inr ([''SDG2'', ''SDG1''], [''SDG2_1'', ''SDG1_1''], [''indirect''])
   \<and> same_outcome
        (Inr ([''SDG1'', ''SDG2''], [''SDG1_1'', ''SDG2_1''], [''indirect'']))
        (Inr ([''SDG2'', ''SDG1''], [''SDG2_1'', ''SDG1_1''], [''indirect'']))"
proof -
  let ?v = "PyStr ''poverty and hunger''"
  let ?cs = "[Show_syntax ''SDG1_1'', Id_sus PyNone, Show_syntax ''SDG9_9'']"
  let ?\<sigma>1 = "example_state\<lparr>sdgs_var := [''SDG1'', ''SDG2''],
                           targets_var := [''SDG1_1'', ''SDG2_1''],
                           matches_var := [''indirect'']\<rparr>"
  let ?r1 = "Inr ([''SDG1'', ''SDG2''], [''SDG1_1'', ''SDG2_1''], [''indirect''])
               :: error + (string list \<times> string list \<times> string list)"
  let ?r2 = "Inr ([''SDG2'', ''SDG1''], [''SDG2_1'', ''SDG1_1''], [''indirect''])
               :: error + (string list \<times> string list \<times> string list)"
  have u: "is_list_set (\<lambda>xs. rev (remdups xs))"
    by (simp add: is_list_set_def)
  have a: "id_sus_st remdups substring_search ?v example_state = (?r1, ?\<sigma>1)"
    by (simp add: id_sus_st_def example_state_def substring_search_def split_first_def Let_def)
  have n: "\<forall>c\<in>set ?cs. \<not> is_edit c" by simp
  have b: "fst (id_sus_st (\<lambda>xs. rev (remdups xs)) substring_search ?v
                 (run remdups substring_search ?cs ?\<sigma>1)) = ?r2"
    by (simp add: id_sus_st_result id_sus_def catalog_of_def show_syntax_st_def id_sus_st_def
          example_state_def substring_search_def split_first_def Let_def)
  obtain \<sigma>2 where
    "id_sus_st (\<lambda>xs. rev (remdups xs)) substring_search ?v
       (run remdups substring_search ?cs ?\<sigma>1) = (?r2, \<sigma>2)"
    using b by (metis prod.collapse)
  from id_sus_pure [OF is_list_set_remdups u a n this]
  have "same_outcome ?r1 ?r2" by blast
  with a b show ?thesis by blast
qed

text \<open>An \<^verbatim>\<open>edit_syntax\<close> between two calls writes to a dict object and can change the
  outcome: the restriction of the property above to calls that are not edits is
  needed.\<close>

lemma id_sus_after_edit_example:
  "fst (id_sus_st remdups substring_search (PyStr ''zero hunger'') example_state)
     = Inr ([''SDG2''], [''SDG2_1''], [''indirect''])
   \<and> fst (id_sus_st remdups substring_search (PyStr ''zero hunger'')
           (run remdups substring_search [Edit_syntax ''SDG2_1'' ''famine'' ''indirect'']
              example_state))
     = Inr ([], [], [])"
  by (simp add: id_sus_st_result id_sus_def catalog_of_def edit_syntax_st_def
        example_state_def substring_search_def split_first_def Let_def)

text \<open>The write of \<^verbatim>\<open>edit_syntax\<close> to the dict objects is the change of the catalog that
  the first reading of \<^verbatim>\<open>edit_syntax\<close> computes, also when one dict object is in the list
  more than once.\<close>

lemma edit_syntax_for_frame:
  "SDG_keys_refs (edit_syntax_for items sdg_id new_syntax mt \<sigma>) = SDG_keys_refs \<sigma>
   \<and> stdout (edit_syntax_for items sdg_id new_syntax mt \<sigma>) = stdout \<sigma>"
  by (induction items arbitrary: \<sigma>) simp_all

lemma edit_syntax_for_heap:
  "heap (edit_syntax_for items sdg_id new_syntax mt \<sigma>) a =
     (if a \<in> set items \<and> SDG_id (heap \<sigma> a) = sdg_id \<and> match_type (heap \<sigma> a) = mt
      then (heap \<sigma> a)\<lparr>SDG_keywords := new_syntax\<rparr>
      else heap \<sigma> a)"
  by (induction items arbitrary: \<sigma>) auto

lemma edit_syntax_for_catalog:
  "map (heap (edit_syntax_for (SDG_keys_refs \<sigma>) sdg_id new_syntax mt \<sigma>)) (SDG_keys_refs \<sigma>)
     = edit_syntax_loop (map (heap \<sigma>) (SDG_keys_refs \<sigma>)) sdg_id new_syntax mt"
  by (simp add: edit_syntax_loop_map edit_syntax_for_heap)

lemma edit_syntax_st_catalog:
  "catalog_of (snd (edit_syntax_st list_set sdg_id new_syntax mt \<sigma>))
     = snd (edit_syntax list_set (catalog_of \<sigma>) sdg_id new_syntax mt)"
  by (simp add: edit_syntax_st_def edit_syntax_def catalog_of_def Let_def
        edit_syntax_for_frame edit_syntax_for_catalog comp_def)

end
